theory Spec2Isabelle
  imports Complex_Main "HOL-Library.Multiset"
begin

section \<open>The bandwidth allocator of code.c\<close>

text \<open>
  The program reads a total bandwidth, a task count and that many tasks, computes each
  task's priority-per-demand ratio, sorts the array with the C library's \<^verbatim>\<open>qsort\<close>
  and hands out the bandwidth in array order.

  Numbers: the values of the C \<^verbatim>\<open>double\<close> fields are reals (no NaN, no infinities)
  and the C \<^verbatim>\<open>int\<close> priority is an integer; the program does no integer arithmetic
  on priorities, it only converts them to \<^verbatim>\<open>double\<close>. The definitions that come first
  compute with exact arithmetic; the subsection on double arithmetic adds the rounding
  of every operation, and the statements that depend on it are made there.
\<close>

subsection \<open>struct Task (lines 36-42)\<close>

record Task =
  name :: string
  demand :: real
  priority :: int
  ratio :: real
  allocated :: real

subsection \<open>compareTasks (lines 54-67)\<close>

definition compareTasks :: "Task \<Rightarrow> Task \<Rightarrow> int" where
  "compareTasks taskA taskB =
     (if ratio taskB < ratio taskA then - 1
      else if ratio taskB > ratio taskA then 1
      else 0)"

subsection \<open>The state of main\<close>

text \<open>
  The local variables of \<^verbatim>\<open>main\<close> that outlive the input phase, and the status it
  returns. \<open>tasks\<close> is the heap array; it is empty as long as no array exists.
\<close>

record main_state =
  tasks :: "Task list"
  totalBandwidth :: real
  initialBandwidth :: real
  totalPriorityValue :: real
  exit_status :: int

subsection \<open>Reading one task (lines 110-130)\<close>

text \<open>The ratio assigned in lines 120-127; \<open>1e9\<close> is the constant \<open>1000000000\<close>.\<close>

definition computeRatio :: "real \<Rightarrow> int \<Rightarrow> real" where
  "computeRatio d p =
     (if d > 0 then real_of_int p / d
      else (if real_of_int p > 0 then 1000000000 else 0))"

definition read_task :: "string \<times> real \<times> int \<Rightarrow> Task" where
  "read_task inp = (case inp of (nm, d, p) \<Rightarrow>
     \<lparr>name = nm, demand = d, priority = p, ratio = computeRatio d p, allocated = 0\<rparr>)"

text \<open>The input loop (lines 103-131) fills the array from the first \<open>numTasks\<close> task lines.\<close>

definition read_tasks :: "int \<Rightarrow> (string \<times> real \<times> int) list \<Rightarrow> Task list" where
  "read_tasks numTasks inputs = map read_task (take (nat numTasks) inputs)"

subsection \<open>The sorting step (line 135)\<close>

text \<open>
  \<^verbatim>\<open>qsort\<close> belongs to the C library, not to this program. The C standard fixes its
  result only up to this postcondition: the array holds the same elements, and the
  comparison function never puts a later element strictly before an earlier one. The
  order of elements that compare equal is unspecified.
\<close>

definition qsort_post :: "Task list \<Rightarrow> Task list \<Rightarrow> bool" where
  "qsort_post xs ys \<longleftrightarrow>
     mset ys = mset xs \<and> sorted_wrt (\<lambda>a b. compareTasks a b \<le> 0) ys"

text \<open>
  Modelled from the spec: \<open>rank\<close>, the sorting step itself. The program calls the C
  library's \<^verbatim>\<open>qsort\<close>, whose code is not part of the sources; the specification
  describes the operation as a sort in descending order of ratio that keeps entries of
  equal ratio in their original relative order and returns a permutation of its input.
  The model is the insertion sort that does this, comparing with the program's own
  \<open>compareTasks\<close>.
\<close>

fun rank_insert :: "Task \<Rightarrow> Task list \<Rightarrow> Task list" where
  "rank_insert t [] = [t]"
| "rank_insert t (u # us) =
     (if compareTasks t u \<le> 0 then t # u # us else u # rank_insert t us)"

definition rank :: "Task list \<Rightarrow> Task list" where
  "rank xs = foldr rank_insert xs []"

subsection \<open>The allocation loop (lines 139-165)\<close>

text \<open>The body of the loop after the \<^verbatim>\<open>break\<close> test, at index \<open>i\<close> (lines 148-164).\<close>

definition loop_body :: "nat \<Rightarrow> main_state \<Rightarrow> main_state" where
  "loop_body i s =
     (let t = tasks s ! i in
      if demand t \<le> totalBandwidth s then
        s\<lparr>tasks := (tasks s)[i := t\<lparr>allocated := demand t\<rparr>],
          totalBandwidth := totalBandwidth s - demand t,
          totalPriorityValue := totalPriorityValue s + real_of_int (priority t)\<rparr>
      else
        (let t' = t\<lparr>allocated := totalBandwidth s\<rparr>;
             fraction = allocated t' / demand t'
         in s\<lparr>tasks := (tasks s)[i := t'],
              totalPriorityValue := totalPriorityValue s + fraction * real_of_int (priority t'),
              totalBandwidth := 0\<rparr>))"

text \<open>\<^verbatim>\<open>for (int i = ...; i < numTasks; i++)\<close> with its \<^verbatim>\<open>break\<close> (lines 139-143).\<close>

function alloc_loop :: "nat \<Rightarrow> nat \<Rightarrow> main_state \<Rightarrow> main_state" where
  "alloc_loop i numTasks s =
     (if i < numTasks then
        (if totalBandwidth s \<le> 0 then s
         else alloc_loop (Suc i) numTasks (loop_body i s))
      else s)"
  by pat_completeness auto
termination
  by (relation "measure (\<lambda>(i, numTasks, s). numTasks - i)") auto

declare alloc_loop.simps [simp del]

subsection \<open>main (lines 72-199)\<close>

text \<open>
  The parsed input is the total bandwidth, the task count and the task lines that
  follow; \<open>malloc_ok\<close> tells whether \<^verbatim>\<open>malloc\<close> returned an array, and \<open>qs\<close> is what
  the library's \<^verbatim>\<open>qsort\<close> does to the array with \<open>compareTasks\<close>. The program reads
  exactly \<open>numTasks\<close> task lines; the model covers inputs that supply them.
\<close>

definition main_prog ::
  "(Task list \<Rightarrow> Task list) \<Rightarrow> bool \<Rightarrow> real \<Rightarrow> int \<Rightarrow> (string \<times> real \<times> int) list \<Rightarrow> main_state" where
  "main_prog qs malloc_ok bandwidth numTasks inputs =
     (let s0 = \<lparr>tasks = [], totalBandwidth = bandwidth, initialBandwidth = bandwidth,
                totalPriorityValue = 0, exit_status = 0\<rparr> in
      if numTasks \<le> 0 then s0\<lparr>exit_status := 0\<rparr>
      else if \<not> malloc_ok then s0\<lparr>exit_status := 1\<rparr>
      else
        (let s1 = s0\<lparr>tasks := read_tasks numTasks inputs\<rparr>;
             s2 = s1\<lparr>tasks := qs (tasks s1)\<rparr>;
             s3 = alloc_loop 0 (nat numTasks) s2
         in s3\<lparr>exit_status := 0\<rparr>))"

text \<open>The state in which main enters the allocation loop (after line 135).\<close>

definition sorted_state ::
  "(Task list \<Rightarrow> Task list) \<Rightarrow> real \<Rightarrow> int \<Rightarrow> (string \<times> real \<times> int) list \<Rightarrow> main_state" where
  "sorted_state qs bandwidth numTasks inputs =
     \<lparr>tasks = qs (read_tasks numTasks inputs), totalBandwidth = bandwidth,
      initialBandwidth = bandwidth, totalPriorityValue = 0, exit_status = 0\<rparr>"

text \<open>The "Bandwidth Used" figure of the summary line (line 170).\<close>

definition bandwidth_used :: "main_state \<Rightarrow> real" where
  "bandwidth_used s = initialBandwidth s - totalBandwidth s"

subsection \<open>The loop as a recursion over the array\<close>

text \<open>
  The same pass read off the list of tasks not yet visited: the array it leaves, the
  bandwidth it leaves and the value it adds. \<open>alloc_loop_list\<close> below shows that
  these three functions are the loop.
\<close>

fun list_tasks :: "Task list \<Rightarrow> real \<Rightarrow> Task list" where
  "list_tasks [] tb = []"
| "list_tasks (t # ts) tb =
     (if tb \<le> 0 then t # ts
      else if demand t \<le> tb then t\<lparr>allocated := demand t\<rparr> # list_tasks ts (tb - demand t)
      else t\<lparr>allocated := tb\<rparr> # ts)"

fun list_rest :: "Task list \<Rightarrow> real \<Rightarrow> real" where
  "list_rest [] tb = tb"
| "list_rest (t # ts) tb =
     (if tb \<le> 0 then tb
      else if demand t \<le> tb then list_rest ts (tb - demand t)
      else 0)"

fun list_value :: "Task list \<Rightarrow> real \<Rightarrow> real" where
  "list_value [] tb = 0"
| "list_value (t # ts) tb =
     (if tb \<le> 0 then 0
      else if demand t \<le> tb then real_of_int (priority t) + list_value ts (tb - demand t)
      else tb / demand t * real_of_int (priority t))"

subsection \<open>Fractional allocations and their value\<close>

text \<open>
  What the loop body credits to a task that is handed the amount \<open>a\<close>: the whole
  priority when the demand is met, the fraction \<open>a / demand\<close> of it otherwise
  (lines 148-160).
\<close>

definition credit :: "Task \<Rightarrow> real \<Rightarrow> real" where
  "credit t a =
     (if demand t \<le> a then real_of_int (priority t)
      else a / demand t * real_of_int (priority t))"

fun allocation_value :: "Task list \<Rightarrow> real list \<Rightarrow> real" where
  "allocation_value (t # ts) (a # as) = credit t a + allocation_value ts as"
| "allocation_value _ _ = 0"

text \<open>An allocation gives every task an amount between 0 and its demand.\<close>

fun within_demands :: "Task list \<Rightarrow> real list \<Rightarrow> bool" where
  "within_demands [] [] = True"
| "within_demands (t # ts) (a # as) = (0 \<le> a \<and> a \<le> demand t \<and> within_demands ts as)"
| "within_demands _ _ = False"



subsection \<open>A sample run\<close>

text \<open>
  One sorter that meets the postcondition of \<^verbatim>\<open>qsort\<close>, an insertion sort that
  keeps ties in input order, and the three tasks A, B, C of the specification's
  example with 100 units of bandwidth. The theorems below are instantiated on them.
\<close>

definition stable_rank :: "Task list \<Rightarrow> Task list" where
  "stable_rank xs = sort_key (\<lambda>t. - ratio t) xs"

definition example_inputs :: "(string \<times> real \<times> int) list" where
  "example_inputs = [(''A'', 60, 60), (''B'', 50, 100), (''C'', 30, 30)]"

definition example_state :: main_state where
  "example_state =
     \<lparr>tasks = stable_rank (read_tasks 3 example_inputs), totalBandwidth = 100,
      initialBandwidth = 100, totalPriorityValue = 0, exit_status = 0\<rparr>"




subsection \<open>Double arithmetic\<close>

text \<open>
  The ratio, the pool and the value are C doubles: each division, subtraction,
  multiplication and addition of lines 121 and 151-160 delivers its exact result rounded
  by the platform. In the definitions of this subsection the rounding is a parameter
  \<open>rnd\<close>, applied once after every such operation; the comparisons, the conversion of the
  int priority and the constants \<open>1e9\<close> and 0 are exact. With a rounding that changes
  nothing these definitions are the ones above (\<open>main_fp_id\<close>).
\<close>

definition computeRatio_fp :: "(real \<Rightarrow> real) \<Rightarrow> real \<Rightarrow> int \<Rightarrow> real" where
  "computeRatio_fp rnd d p =
     (if d > 0 then rnd (real_of_int p / d)
      else (if real_of_int p > 0 then 1000000000 else 0))"

definition read_task_fp :: "(real \<Rightarrow> real) \<Rightarrow> string \<times> real \<times> int \<Rightarrow> Task" where
  "read_task_fp rnd inp = (case inp of (nm, d, p) \<Rightarrow>
     \<lparr>name = nm, demand = d, priority = p, ratio = computeRatio_fp rnd d p, allocated = 0\<rparr>)"

definition read_tasks_fp ::
  "(real \<Rightarrow> real) \<Rightarrow> int \<Rightarrow> (string \<times> real \<times> int) list \<Rightarrow> Task list" where
  "read_tasks_fp rnd numTasks inputs = map (read_task_fp rnd) (take (nat numTasks) inputs)"

definition loop_body_fp :: "(real \<Rightarrow> real) \<Rightarrow> nat \<Rightarrow> main_state \<Rightarrow> main_state" where
  "loop_body_fp rnd i s =
     (let t = tasks s ! i in
      if demand t \<le> totalBandwidth s then
        s\<lparr>tasks := (tasks s)[i := t\<lparr>allocated := demand t\<rparr>],
          totalBandwidth := rnd (totalBandwidth s - demand t),
          totalPriorityValue := rnd (totalPriorityValue s + real_of_int (priority t))\<rparr>
      else
        (let t' = t\<lparr>allocated := totalBandwidth s\<rparr>;
             fraction = rnd (allocated t' / demand t')
         in s\<lparr>tasks := (tasks s)[i := t'],
              totalPriorityValue :=
                rnd (totalPriorityValue s + rnd (fraction * real_of_int (priority t'))),
              totalBandwidth := 0\<rparr>))"

function alloc_loop_fp :: "(real \<Rightarrow> real) \<Rightarrow> nat \<Rightarrow> nat \<Rightarrow> main_state \<Rightarrow> main_state" where
  "alloc_loop_fp rnd i numTasks s =
     (if i < numTasks then
        (if totalBandwidth s \<le> 0 then s
         else alloc_loop_fp rnd (Suc i) numTasks (loop_body_fp rnd i s))
      else s)"
  by pat_completeness auto
termination
  by (relation "measure (\<lambda>(rnd, i, numTasks, s). numTasks - i)") auto

declare alloc_loop_fp.simps [simp del]

definition sorted_state_fp ::
  "(real \<Rightarrow> real) \<Rightarrow> (Task list \<Rightarrow> Task list) \<Rightarrow> real \<Rightarrow> int \<Rightarrow>
   (string \<times> real \<times> int) list \<Rightarrow> main_state" where
  "sorted_state_fp rnd qs bandwidth numTasks inputs =
     \<lparr>tasks = qs (read_tasks_fp rnd numTasks inputs), totalBandwidth = bandwidth,
      initialBandwidth = bandwidth, totalPriorityValue = 0, exit_status = 0\<rparr>"

definition main_fp ::
  "(real \<Rightarrow> real) \<Rightarrow> (Task list \<Rightarrow> Task list) \<Rightarrow> bool \<Rightarrow> real \<Rightarrow> int \<Rightarrow>
   (string \<times> real \<times> int) list \<Rightarrow> main_state" where
  "main_fp rnd qs malloc_ok bandwidth numTasks inputs =
     (let s0 = \<lparr>tasks = [], totalBandwidth = bandwidth, initialBandwidth = bandwidth,
                totalPriorityValue = 0, exit_status = 0\<rparr> in
      if numTasks \<le> 0 then s0\<lparr>exit_status := 0\<rparr>
      else if \<not> malloc_ok then s0\<lparr>exit_status := 1\<rparr>
      else
        (let s1 = s0\<lparr>tasks := read_tasks_fp rnd numTasks inputs\<rparr>;
             s2 = s1\<lparr>tasks := qs (tasks s1)\<rparr>;
             s3 = alloc_loop_fp rnd 0 (nat numTasks) s2
         in s3\<lparr>exit_status := 0\<rparr>))"

text \<open>
  IEEE-754 binary64 rounding to nearest, ties to even, for results in the finite range
  (overflow to infinity is not modelled): 53 significant bits, exponents from -1022.
\<close>

definition round_half_even :: "real \<Rightarrow> int" where
  "round_half_even q =
     (let n = \<lfloor>q\<rfloor> in
      if q - of_int n < 1 / 2 then n
      else if 1 / 2 < q - of_int n then n + 1
      else if even n then n else n + 1)"

definition round_double :: "real \<Rightarrow> real" where
  "round_double x =
     (if x = 0 then 0
      else (let e = max \<lfloor>log 2 \<bar>x\<bar>\<rfloor> (- 1022);
                u = power_int 2 (e - 52)
            in u * of_int (round_half_even (x / u))))"

text \<open>
  A run in which operations deliver their exact results. \<open>holds_along P\<close> says that \<open>P\<close>
  holds before every iteration the loop performs; \<open>exact_subtraction\<close> is about the pool
  update of line 151 alone, \<open>exact_step\<close> about every operation of the iteration.
  \<open>exact_pool\<close> and \<open>exact_run\<close> say so for a whole run of main, the latter including the
  ratios of line 121.
\<close>

definition exact_subtraction :: "(real \<Rightarrow> real) \<Rightarrow> nat \<Rightarrow> main_state \<Rightarrow> bool" where
  "exact_subtraction rnd i s \<longleftrightarrow>
     (let t = tasks s ! i; tb = totalBandwidth s in
      if demand t \<le> tb then rnd (tb - demand t) = tb - demand t else True)"


function holds_along ::
  "(nat \<Rightarrow> main_state \<Rightarrow> bool) \<Rightarrow> (real \<Rightarrow> real) \<Rightarrow> nat \<Rightarrow> nat \<Rightarrow> main_state \<Rightarrow> bool" where
  "holds_along P rnd i numTasks s =
     (if i < numTasks then
        (if totalBandwidth s \<le> 0 then True
         else P i s \<and> holds_along P rnd (Suc i) numTasks (loop_body_fp rnd i s))
      else True)"
  by pat_completeness auto
termination
  by (relation "measure (\<lambda>(P, rnd, i, numTasks, s). numTasks - i)") auto

declare holds_along.simps [simp del]

definition exact_pool ::
  "(real \<Rightarrow> real) \<Rightarrow> (Task list \<Rightarrow> Task list) \<Rightarrow> real \<Rightarrow> int \<Rightarrow>
   (string \<times> real \<times> int) list \<Rightarrow> bool" where
  "exact_pool rnd qs bandwidth numTasks inputs \<longleftrightarrow>
     holds_along (exact_subtraction rnd) rnd 0 (nat numTasks)
       (sorted_state_fp rnd qs bandwidth numTasks inputs)"


text \<open>
  Two more inputs: one on which binary64 subtraction rounds, and one on which every
  operation of the run is exact.
\<close>

definition rounding_inputs :: "(string \<times> real \<times> int) list" where
  "rounding_inputs = [(''S1'', 1, 10), (''S2'', 1, 10), (''BIG'', 10000000000000000, 0)]"

definition dyadic_inputs :: "(string \<times> real \<times> int) list" where
  "dyadic_inputs = [(''A'', 100, 100), (''Z'', 0, 5), (''B'', 50, 100)]"

section \<open>The loop and its list view\<close>

lemma alloc_loop_exhausted: "totalBandwidth s \<le> 0 \<Longrightarrow> alloc_loop i n s = s"
  by (simp add: alloc_loop.simps)

lemma alloc_loop_done: "n \<le> i \<Longrightarrow> alloc_loop i n s = s"
  by (simp add: alloc_loop.simps)

lemma list_tasks_exhausted: "tb \<le> 0 \<Longrightarrow> list_tasks ts tb = ts"
  by (cases ts) simp_all

lemma list_rest_exhausted: "tb \<le> 0 \<Longrightarrow> list_rest ts tb = tb"
  by (cases ts) simp_all

lemma list_value_exhausted: "tb \<le> 0 \<Longrightarrow> list_value ts tb = 0"
  by (cases ts) simp_all

lemma alloc_loop_list:
  "n = length (tasks s) \<Longrightarrow> i \<le> n \<Longrightarrow>
   alloc_loop i n s =
     s\<lparr>tasks := take i (tasks s) @ list_tasks (drop i (tasks s)) (totalBandwidth s),
       totalBandwidth := list_rest (drop i (tasks s)) (totalBandwidth s),
       totalPriorityValue := totalPriorityValue s + list_value (drop i (tasks s)) (totalBandwidth s)\<rparr>"
proof (induction i n s rule: alloc_loop.induct)
  case (1 i n s)
  show ?case
  proof (cases "i < n")
    case False
    with 1 show ?thesis by (simp add: alloc_loop_done)
  next
    case lt: True
    show ?thesis
    proof (cases "totalBandwidth s \<le> 0")
      case True
      then show ?thesis
        by (simp add: alloc_loop_exhausted list_tasks_exhausted list_rest_exhausted list_value_exhausted)
    next
      case pos: False
      let ?s' = "loop_body i s"
      have len: "length (tasks ?s') = length (tasks s)"
        by (simp add: loop_body_def Let_def)
      have step: "alloc_loop i n s = alloc_loop (Suc i) n ?s'"
        using lt pos by (subst alloc_loop.simps) simp
      have dr: "drop i (tasks s) = tasks s ! i # drop (Suc i) (tasks s)"
        using lt 1(2) by (simp add: Cons_nth_drop_Suc)
      have IH: "alloc_loop (Suc i) n ?s' =
         ?s'\<lparr>tasks := take (Suc i) (tasks ?s') @ list_tasks (drop (Suc i) (tasks ?s')) (totalBandwidth ?s'),
       totalBandwidth := list_rest (drop (Suc i) (tasks ?s')) (totalBandwidth ?s'),
       totalPriorityValue := totalPriorityValue ?s' + list_value (drop (Suc i) (tasks ?s')) (totalBandwidth ?s')\<rparr>"
        using 1(1)[OF lt pos] lt 1(2) len by simp
      show ?thesis
        unfolding step IH dr using lt pos 1(2)
        by (simp add: loop_body_def Let_def take_Suc_conv_app_nth list_tasks_exhausted list_rest_exhausted list_value_exhausted)
    qed
  qed
qed

section \<open>What the sorting step guarantees\<close>

lemma compareTasks_le: "compareTasks a b \<le> 0 \<longleftrightarrow> ratio b \<le> ratio a"
  by (simp add: compareTasks_def)

text \<open>
  \<open>compareTasks\<close> is a comparison function as \<^verbatim>\<open>qsort\<close> requires: swapping the arguments
  flips the sign, and "not after" is transitive.
\<close>

lemma compareTasks_consistent:
  "compareTasks b a = - compareTasks a b"
  "compareTasks a b \<le> 0 \<Longrightarrow> compareTasks b c \<le> 0 \<Longrightarrow> compareTasks a c \<le> 0"
  by (auto simp add: compareTasks_def split: if_splits)

lemma qsort_post_sorted:
  "qsort_post xs ys \<Longrightarrow> sorted_wrt (\<lambda>a b. ratio b \<le> ratio a) ys"
  by (simp add: qsort_post_def compareTasks_le)

lemma qsort_post_set: "qsort_post xs ys \<Longrightarrow> set ys = set xs"
  by (metis qsort_post_def set_mset_mset)

lemma qsort_post_length: "qsort_post xs ys \<Longrightarrow> length ys = length xs"
  by (metis qsort_post_def size_mset)

section \<open>What the pass does to the array and the pool\<close>


lemma list_tasks_frame:
  "map (\<lambda>t. (name t, demand t, priority t, ratio t)) (list_tasks ts tb) =
   map (\<lambda>t. (name t, demand t, priority t, ratio t)) ts"
  by (induction ts tb rule: list_tasks.induct) simp_all

lemma list_tasks_bounds:
  "\<forall>t \<in> set ts. allocated t = 0 \<and> 0 \<le> demand t \<Longrightarrow>
   \<forall>t \<in> set (list_tasks ts tb). 0 \<le> allocated t \<and> allocated t \<le> demand t"
  by (induction ts tb rule: list_tasks.induct) auto

lemma list_tasks_sum:
  "\<forall>t \<in> set ts. allocated t = 0 \<and> 0 \<le> demand t \<Longrightarrow> 0 \<le> tb \<Longrightarrow>
   sum_list (map allocated (list_tasks ts tb)) = min tb (sum_list (map demand ts))"
proof (induction ts tb rule: list_tasks.induct)
  case (1 tb)
  then show ?case by simp
next
  case (2 t ts tb)
  have nn: "0 \<le> sum_list (map demand ts)"
    using 2(2) by (intro sum_list_nonneg) auto
  have z: "sum_list (map allocated ts) = 0"
    using 2(2) by (induction ts) simp_all
  show ?case
  proof (cases "tb \<le> 0")
    case True
    with 2(2,3) nn z show ?thesis by simp
  next
    case pos: False
    show ?thesis
    proof (cases "demand t \<le> tb")
      case True
      with pos 2 show ?thesis by simp
    next
      case False
      with pos 2(2) nn z show ?thesis by simp
    qed
  qed
qed

lemma list_rest_eq:
  "\<forall>t \<in> set ts. 0 \<le> demand t \<Longrightarrow> 0 \<le> tb \<Longrightarrow>
   list_rest ts tb = max 0 (tb - sum_list (map demand ts))"
proof (induction ts tb rule: list_rest.induct)
  case (1 tb)
  then show ?case by simp
next
  case (2 t ts tb)
  have nn: "0 \<le> sum_list (map demand ts)"
    using 2(2) by (intro sum_list_nonneg) auto
  show ?case
  proof (cases "tb \<le> 0")
    case True
    with 2(2,3) nn show ?thesis by simp
  next
    case pos: False
    show ?thesis
    proof (cases "demand t \<le> tb")
      case True
      with pos 2 show ?thesis by (simp add: algebra_simps)
    next
      case False
      with pos 2(2) nn show ?thesis by simp
    qed
  qed
qed

section \<open>main in terms of the list view\<close>

lemma main_prog_early:
  "numTasks \<le> 0 \<or> \<not> malloc_ok \<Longrightarrow>
   main_prog qs malloc_ok bw numTasks inputs =
     \<lparr>tasks = [], totalBandwidth = bw, initialBandwidth = bw, totalPriorityValue = 0,
      exit_status = (if numTasks \<le> 0 then 0 else 1)\<rparr>"
  by (auto simp add: main_prog_def)

lemma main_prog_run:
  assumes "0 < numTasks" "malloc_ok" "length (qs (read_tasks numTasks inputs)) = nat numTasks"
  shows "main_prog qs malloc_ok bw numTasks inputs =
     \<lparr>tasks = list_tasks (qs (read_tasks numTasks inputs)) bw,
      totalBandwidth = list_rest (qs (read_tasks numTasks inputs)) bw,
      initialBandwidth = bw,
      totalPriorityValue = list_value (qs (read_tasks numTasks inputs)) bw,
      exit_status = 0\<rparr>"
  using assms by (simp add: main_prog_def Let_def alloc_loop_list)

lemma length_read_tasks:
  "nat numTasks \<le> length inputs \<Longrightarrow> length (read_tasks numTasks inputs) = nat numTasks"
  by (simp add: read_tasks_def)

lemma read_tasks_fresh:
  "t \<in> set (read_tasks numTasks inputs) \<Longrightarrow>
     allocated t = 0 \<and> ratio t = computeRatio (demand t) (priority t)"
  by (auto simp add: read_tasks_def read_task_def split: prod.splits)

lemma read_tasks_demand:
  "\<forall>x \<in> set (take (nat numTasks) inputs). 0 \<le> fst (snd x) \<Longrightarrow>
   t \<in> set (read_tasks numTasks inputs) \<Longrightarrow> 0 \<le> demand t"
  by (auto simp add: read_tasks_def read_task_def split: prod.splits)

lemma read_tasks_priority:
  "\<forall>x \<in> set (take (nat numTasks) inputs). 0 \<le> snd (snd x) \<Longrightarrow>
   t \<in> set (read_tasks numTasks inputs) \<Longrightarrow> 0 \<le> priority t"
  by (auto simp add: read_tasks_def read_task_def split: prod.splits)

section \<open>The sample run\<close>

lemma qsort_post_stable_rank: "qsort_post xs (stable_rank xs)"
proof -
  have "sorted (map (\<lambda>t. - ratio t) (stable_rank xs))"
    by (simp add: stable_rank_def)
  then have "sorted_wrt (\<lambda>a b. ratio b \<le> ratio a) (stable_rank xs)"
    by (simp add: sorted_wrt_map)
  then show ?thesis
    by (simp add: qsort_post_def compareTasks_le stable_rank_def)
qed

lemma example_rank: "stable_rank (read_tasks 3 example_inputs) =
  [\<lparr>name = ''B'', demand = 50, priority = 100, ratio = 2, allocated = 0\<rparr>,
   \<lparr>name = ''A'', demand = 60, priority = 60, ratio = 1, allocated = 0\<rparr>,
   \<lparr>name = ''C'', demand = 30, priority = 30, ratio = 1, allocated = 0\<rparr>]"
  by (simp add: read_tasks_def example_inputs_def read_task_def computeRatio_def stable_rank_def)

lemma example_main: "main_prog stable_rank True 100 3 example_inputs =
  \<lparr>tasks = [\<lparr>name = ''B'', demand = 50, priority = 100, ratio = 2, allocated = 50\<rparr>,
   \<lparr>name = ''A'', demand = 60, priority = 60, ratio = 1, allocated = 50\<rparr>,
   \<lparr>name = ''C'', demand = 30, priority = 30, ratio = 1, allocated = 0\<rparr>],
   totalBandwidth = 0, initialBandwidth = 100, totalPriorityValue = 150, exit_status = 0\<rparr>"
  by (simp add: main_prog_run example_rank)

section \<open>Iterations of the loop\<close>

lemma map_update_same: "f y = f (xs ! i) \<Longrightarrow> map f (xs[i := y]) = map f xs"
  by (induction xs arbitrary: i) (auto split: nat.splits)

lemma loop_body_frame:
  "map (\<lambda>t. (name t, demand t, priority t, ratio t)) (tasks (loop_body i s)) =
   map (\<lambda>t. (name t, demand t, priority t, ratio t)) (tasks s)"
  by (simp add: loop_body_def Let_def map_update_same)

lemma loop_body_initial: "initialBandwidth (loop_body i s) = initialBandwidth s"
  by (simp add: loop_body_def Let_def)

lemma alloc_loop_frame:
  "map (\<lambda>t. (name t, demand t, priority t, ratio t)) (tasks (alloc_loop i n s)) =
   map (\<lambda>t. (name t, demand t, priority t, ratio t)) (tasks s)"
proof (induction i n s rule: alloc_loop.induct)
  case (1 i n s)
  show ?case
  proof (cases "i < n \<and> \<not> totalBandwidth s \<le> 0")
    case True
    then have "alloc_loop i n s = alloc_loop (Suc i) n (loop_body i s)"
      by (subst alloc_loop.simps) simp
    with 1 True show ?thesis by (simp add: loop_body_frame)
  next
    case False
    then have "alloc_loop i n s = s"
      by (subst alloc_loop.simps) auto
    then show ?thesis by simp
  qed
qed

lemma alloc_loop_Suc:
  "i \<le> k \<Longrightarrow>
   alloc_loop i (Suc k) s =
     (if totalBandwidth (alloc_loop i k s) \<le> 0 then alloc_loop i k s
      else loop_body k (alloc_loop i k s))"
proof (induction i k s rule: alloc_loop.induct)
  case (1 i k s)
  show ?case
  proof (cases "totalBandwidth s \<le> 0")
    case True
    then show ?thesis by (simp add: alloc_loop_exhausted)
  next
    case pos: False
    show ?thesis
    proof (cases "i < k")
      case True
      have a: "alloc_loop i k s = alloc_loop (Suc i) k (loop_body i s)"
        using True pos by (subst alloc_loop.simps) simp
      have b: "alloc_loop i (Suc k) s = alloc_loop (Suc i) (Suc k) (loop_body i s)"
        using True pos by (subst alloc_loop.simps) simp
      show ?thesis unfolding a b using 1(1)[OF True pos] True by simp
    next
      case False
      with 1(2) have ik: "i = k" by simp
      have a: "alloc_loop k k s = s" by (simp add: alloc_loop_done)
      have b: "alloc_loop k (Suc k) s = loop_body k s"
        using pos by (subst alloc_loop.simps) (simp add: alloc_loop_done)
      show ?thesis unfolding ik a b using pos by simp
    qed
  qed
qed

lemma loop_body_pool:
  "0 \<le> demand (tasks s ! i) \<Longrightarrow> 0 < totalBandwidth s \<Longrightarrow>
   totalBandwidth (loop_body i s) \<le> totalBandwidth s"
  by (simp add: loop_body_def Let_def)

lemma alloc_loop_demand_nth:
  "k < length (tasks s) \<Longrightarrow> demand (tasks (alloc_loop i n s) ! k) = demand (tasks s ! k)"
proof -
  assume k: "k < length (tasks s)"
  have "map demand (tasks (alloc_loop i n s)) = map demand (tasks s)"
    using arg_cong[OF alloc_loop_frame[of i n s], of "map (\<lambda>x. fst (snd x))"]
    by (simp add: comp_def)
  then have "map demand (tasks (alloc_loop i n s)) ! k = map demand (tasks s) ! k"
    by simp
  moreover have "length (tasks (alloc_loop i n s)) = length (tasks s)"
    using arg_cong[OF alloc_loop_frame[of i n s], of length] by simp
  ultimately show ?thesis using k by simp
qed

text \<open>
  C8. During the pass over tasks with non-negative demands the remaining bandwidth never
  grows: it starts at the value main stored in \<open>totalBandwidth\<close>, and the state after
  \<open>k + 1\<close> iterations holds at most what the state after \<open>k\<close> iterations holds.
  (\<open>alloc_loop_Suc\<close>: running the loop to bound \<open>k + 1\<close> is running it to bound \<open>k\<close>
  and then one more guarded iteration.)
\<close>

theorem pool_non_increasing:
  assumes "\<forall>t \<in> set (tasks s). 0 \<le> demand t"
    and "k < numTasks" and "numTasks \<le> length (tasks s)"
  shows "totalBandwidth (alloc_loop 0 0 s) = totalBandwidth s \<and>
         totalBandwidth (alloc_loop 0 (Suc k) s) \<le> totalBandwidth (alloc_loop 0 k s)"
proof -
  have k: "k < length (tasks s)" using assms(2,3) by simp
  then have "tasks s ! k \<in> set (tasks s)" by simp
  with assms(1) have "0 \<le> demand (tasks s ! k)" by blast
  then have d: "0 \<le> demand (tasks (alloc_loop 0 k s) ! k)"
    using k by (simp add: alloc_loop_demand_nth)
  have "totalBandwidth (alloc_loop 0 (Suc k) s) \<le> totalBandwidth (alloc_loop 0 k s)"
    using loop_body_pool[OF d] by (simp add: alloc_loop_Suc)
  then show ?thesis by (simp add: alloc_loop_done)
qed

theorem pool_non_increasing_witness:
  "totalBandwidth (alloc_loop 0 0 example_state) = totalBandwidth example_state \<and>
   totalBandwidth (alloc_loop 0 (Suc 1) example_state) \<le> totalBandwidth (alloc_loop 0 1 example_state)"
proof -
  have h1: "\<forall>t \<in> set (tasks example_state). 0 \<le> demand t"
    by (simp add: example_state_def example_rank)
  have h2: "(1::nat) < 3" by simp
  have h3: "3 \<le> length (tasks example_state)"
    by (simp add: example_state_def example_rank)
  show ?thesis
    using pool_non_increasing[OF h1 h2 h3] by simp
qed

text \<open>
  C9. The allocation pass over an array of at least \<open>numTasks\<close> entries leaves the array
  at its length and leaves the name, demand, priority and ratio of every entry as they
  were; only \<open>allocated\<close> is written.
\<close>

theorem allocation_pass_frame:
  assumes "numTasks \<le> length (tasks s)"
  shows "length (tasks (alloc_loop 0 numTasks s)) = length (tasks s) \<and>
   map (\<lambda>t. (name t, demand t, priority t, ratio t)) (tasks (alloc_loop 0 numTasks s)) =
   map (\<lambda>t. (name t, demand t, priority t, ratio t)) (tasks s)"
proof -
  have "length (map (\<lambda>t. (name t, demand t, priority t, ratio t)) (tasks (alloc_loop 0 numTasks s))) =
        length (map (\<lambda>t. (name t, demand t, priority t, ratio t)) (tasks s))"
    by (simp only: alloc_loop_frame)
  then have "length (tasks (alloc_loop 0 numTasks s)) = length (tasks s)"
    by simp
  then show ?thesis by (simp add: alloc_loop_frame)
qed

theorem allocation_pass_frame_witness:
  "length (tasks (alloc_loop 0 3 example_state)) = length (tasks example_state) \<and>
   map (\<lambda>t. (name t, demand t, priority t, ratio t)) (tasks (alloc_loop 0 3 example_state)) =
   [(''B'', 50, 100, 2), (''A'', 60, 60, 1), (''C'', 30, 30, 1)]"
proof -
  have h: "3 \<le> length (tasks example_state)"
    by (simp add: example_state_def example_rank)
  have k: "map (\<lambda>t. (name t, demand t, priority t, ratio t)) (tasks example_state) =
    [(''B'', 50, 100, 2), (''A'', 60, 60, 1), (''C'', 30, 30, 1)]"
    by (simp add: example_state_def example_rank)
  show ?thesis
    using allocation_pass_frame[OF h] unfolding k by (simp only:)
qed

section \<open>Properties of a whole run\<close>


lemma sorted_run_facts:
  assumes "nat numTasks \<le> length inputs"
    and "qsort_post (read_tasks numTasks inputs) (qs (read_tasks numTasks inputs))"
  shows "length (qs (read_tasks numTasks inputs)) = nat numTasks"
    and "set (qs (read_tasks numTasks inputs)) = set (read_tasks numTasks inputs)"
  using assms by (simp_all add: qsort_post_length qsort_post_set length_read_tasks)

text \<open>
  C4. When every demand read is non-negative, every entry of the final table has
  \<open>0 \<le> allocated \<le> demand\<close>.
\<close>
theorem allocated_within_demand:
  assumes dem: "\<forall>x \<in> set (take (nat numTasks) inputs). 0 \<le> fst (snd x)"
    and len: "nat numTasks \<le> length inputs"
    and srt: "qsort_post (read_tasks numTasks inputs) (qs (read_tasks numTasks inputs))"
  shows "\<forall>t \<in> set (tasks (main_prog qs malloc_ok bandwidth numTasks inputs)).
           0 \<le> allocated t \<and> allocated t \<le> demand t"
proof (cases "0 < numTasks \<and> malloc_ok")
  case True
  let ?ys = "qs (read_tasks numTasks inputs)"
  have fresh: "\<forall>t \<in> set ?ys. allocated t = 0 \<and> 0 \<le> demand t"
    using read_tasks_fresh read_tasks_demand[OF dem] sorted_run_facts(2)[where qs = qs, OF len srt] by blast
  show ?thesis
    using list_tasks_bounds[OF fresh] True
    by (simp add: main_prog_run sorted_run_facts(1)[where qs = qs, OF len srt])
next
  case False
  then have "numTasks \<le> 0 \<or> \<not> malloc_ok" by auto
  then show ?thesis by (simp add: main_prog_early)
qed

theorem allocated_within_demand_witness:
  "list_all (\<lambda>t. 0 \<le> allocated t \<and> allocated t \<le> demand t)
     (tasks (main_prog stable_rank True 100 3 example_inputs))"
proof -
  have h1: "\<forall>x \<in> set (take (nat 3) example_inputs). 0 \<le> fst (snd x)"
    by (simp add: example_inputs_def)
  have h2: "nat 3 \<le> length example_inputs"
    by (simp add: example_inputs_def)
  have h3: "qsort_post (read_tasks 3 example_inputs) (stable_rank (read_tasks 3 example_inputs))"
    by (simp add: read_tasks_def example_inputs_def read_task_def computeRatio_def
        stable_rank_def qsort_post_def compareTasks_def)
  show ?thesis
    using allocated_within_demand[where qs = stable_rank and malloc_ok = True and bandwidth = 100, OF h1 h2 h3]
    by (simp only: list_all_iff)
qed

text \<open>
  C10. With a capacity \<open>\<le> 0\<close> the loop stops before its first iteration: the array is
  as the sort left it, every entry keeps \<open>allocated = 0\<close>, the value is 0, the pool is
  still the capacity entered and the bandwidth reported as used is 0.
\<close>
theorem no_bandwidth_no_allocation:
  assumes cap: "bandwidth \<le> 0"
    and srt: "qsort_post (read_tasks numTasks inputs) (qs (read_tasks numTasks inputs))"
  shows "tasks (main_prog qs malloc_ok bandwidth numTasks inputs) =
           (if 0 < numTasks \<and> malloc_ok then qs (read_tasks numTasks inputs) else []) \<and>
         (\<forall>t \<in> set (tasks (main_prog qs malloc_ok bandwidth numTasks inputs)). allocated t = 0) \<and>
         totalPriorityValue (main_prog qs malloc_ok bandwidth numTasks inputs) = 0 \<and>
         totalBandwidth (main_prog qs malloc_ok bandwidth numTasks inputs) = bandwidth \<and>
         bandwidth_used (main_prog qs malloc_ok bandwidth numTasks inputs) = 0"
proof (cases "0 < numTasks \<and> malloc_ok")
  case True
  have fresh: "\<forall>t \<in> set (qs (read_tasks numTasks inputs)). allocated t = 0"
    using read_tasks_fresh qsort_post_set[OF srt] by blast
  show ?thesis
    using True cap fresh
    by (simp add: main_prog_def Let_def alloc_loop_exhausted bandwidth_used_def)
next
  case False
  then have "numTasks \<le> 0 \<or> \<not> malloc_ok" by auto
  then show ?thesis using False by (auto simp add: main_prog_early bandwidth_used_def)
qed

theorem no_bandwidth_no_allocation_witness:
  "tasks (main_prog stable_rank True (- 5) 3 example_inputs) =
     stable_rank (read_tasks 3 example_inputs) \<and>
   list_all (\<lambda>t. allocated t = 0) (tasks (main_prog stable_rank True (- 5) 3 example_inputs)) \<and>
   totalPriorityValue (main_prog stable_rank True (- 5) 3 example_inputs) = 0 \<and>
   totalBandwidth (main_prog stable_rank True (- 5) 3 example_inputs) = - 5 \<and>
   bandwidth_used (main_prog stable_rank True (- 5) 3 example_inputs) = 0"
proof -
  have h0: "(- 5::real) \<le> 0" by simp
  have h3: "qsort_post (read_tasks 3 example_inputs) (stable_rank (read_tasks 3 example_inputs))"
    by (simp add: read_tasks_def example_inputs_def read_task_def computeRatio_def
        stable_rank_def qsort_post_def compareTasks_def)
  show ?thesis
    using no_bandwidth_no_allocation[where qs = stable_rank and malloc_ok = True, OF h0 h3]
    by (simp add: list_all_iff)
qed

text \<open>
  C7. With a task count \<open>\<le> 0\<close> main returns 0 before any array exists: no entry, value
  0, nothing used. The status is non-zero exactly when a positive count was entered and
  \<^verbatim>\<open>malloc\<close> failed.
\<close>
theorem exit_status_cases:
  "(numTasks \<le> 0 \<longrightarrow>
      exit_status (main_prog qs malloc_ok bandwidth numTasks inputs) = 0 \<and>
      tasks (main_prog qs malloc_ok bandwidth numTasks inputs) = [] \<and>
      totalPriorityValue (main_prog qs malloc_ok bandwidth numTasks inputs) = 0 \<and>
      bandwidth_used (main_prog qs malloc_ok bandwidth numTasks inputs) = 0) \<and>
   (exit_status (main_prog qs malloc_ok bandwidth numTasks inputs) \<noteq> 0 \<longleftrightarrow>
      0 < numTasks \<and> \<not> malloc_ok)"
  by (auto simp add: main_prog_def Let_def bandwidth_used_def)

theorem exit_status_cases_witness:
  "exit_status (main_prog stable_rank True 100 0 example_inputs) = 0 \<and>
   tasks (main_prog stable_rank True 100 0 example_inputs) = [] \<and>
   totalPriorityValue (main_prog stable_rank True 100 0 example_inputs) = 0 \<and>
   bandwidth_used (main_prog stable_rank True 100 0 example_inputs) = 0 \<and>
   exit_status (main_prog stable_rank False 100 3 example_inputs) \<noteq> 0"
  using exit_status_cases[of 0 stable_rank True 100 example_inputs]
    exit_status_cases[of 3 stable_rank False 100 example_inputs]
  by simp

section \<open>Ranking\<close>

text \<open>
  The modelled \<open>rank\<close> is the library's stable insertion sort on the negated ratio, and
  its result is one that the postcondition of \<^verbatim>\<open>qsort\<close> admits.
\<close>

lemma rank_insert_insort: "rank_insert t us = insort_key (\<lambda>t. - ratio t) t us"
  by (induction us) (simp_all add: compareTasks_le)

lemma rank_sort_key: "rank xs = sort_key (\<lambda>t. - ratio t) xs"
proof -
  have "rank_insert = insort_key (\<lambda>t. - ratio t)"
    by (intro ext) (rule rank_insert_insort)
  then show ?thesis by (simp add: rank_def sort_key_def)
qed

lemma rank_stable_rank: "rank xs = stable_rank xs"
  by (simp add: rank_sort_key stable_rank_def)

lemma qsort_post_rank: "qsort_post xs (rank xs)"
  by (simp add: rank_stable_rank qsort_post_stable_rank)

lemma rank_descending: "sorted_wrt (\<lambda>a b. ratio b \<le> ratio a) (rank xs)"
  by (rule qsort_post_sorted[OF qsort_post_rank])

lemma rank_ties: "filter (\<lambda>t. ratio t = r) (rank xs) = filter (\<lambda>t. ratio t = r) xs"
proof -
  have "filter (\<lambda>t. - ratio t = - r) (sort_key (\<lambda>t. - ratio t) xs) =
        filter (\<lambda>t. - ratio t = - r) xs"
    by (rule sort_key_stable)
  then show ?thesis by (simp add: rank_sort_key)
qed

lemma rank_example:
  "map name (rank (read_tasks 3 example_inputs)) = [''B'', ''A'', ''C'']"
  by (simp add: read_tasks_def example_inputs_def read_task_def computeRatio_def rank_def
      compareTasks_def)

text \<open>
  C5. For every entry list, \<open>rank\<close> returns a permutation of the input (no entry added
  or removed), ordered descending by ratio, in which the entries of each ratio stand in
  their original relative order.
\<close>

theorem rank_stable_permutation:
  "mset (rank xs) = mset xs \<and> length (rank xs) = length xs \<and>
   sorted_wrt (\<lambda>a b. ratio b \<le> ratio a) (rank xs) \<and>
   (\<forall>r. filter (\<lambda>t. ratio t = r) (rank xs) = filter (\<lambda>t. ratio t = r) xs)"
  by (simp add: rank_descending rank_ties) (simp add: rank_sort_key)

text \<open>
  C6. Ranking is idempotent: ranking an already ranked sequence returns it unchanged.
\<close>

theorem rank_idempotent: "rank (rank xs) = rank xs"
proof -
  have "sorted (map (\<lambda>t. - ratio t) (rank xs))"
    by (simp add: rank_sort_key)
  then have "sort_key (\<lambda>t. - ratio t) (rank xs) = rank xs"
    by (rule sort_key_id_if_sorted)
  then show ?thesis by (simp add: rank_sort_key)
qed

section \<open>Tasks that demand nothing\<close>

lemma main_prog_loop:
  assumes "0 < numTasks" "malloc_ok" "length (qs (read_tasks numTasks inputs)) = nat numTasks"
  shows "main_prog qs malloc_ok bw numTasks inputs =
         alloc_loop 0 (nat numTasks) (sorted_state qs bw numTasks inputs)"
  using assms by (simp add: main_prog_run alloc_loop_list sorted_state_def)










section \<open>The greedy order is optimal\<close>








lemma allocation_value_list_tasks:
  "allocation_value (list_tasks ts tb) as = allocation_value ts as"
proof (induction ts tb arbitrary: as rule: list_tasks.induct)
  case (1 tb)
  show ?case by simp
next
  case (2 t ts tb)
  show ?case using 2 by (cases as) (simp_all add: credit_def)
qed

lemma within_demands_list_tasks:
  "within_demands (list_tasks ts tb) as = within_demands ts as"
proof (induction ts tb arbitrary: as rule: list_tasks.induct)
  case (1 tb)
  show ?case by simp
next
  case (2 t ts tb)
  show ?case using 2 by (cases as) simp_all
qed





section \<open>The program with rounding\<close>


lemma holds_along_step:
  "i < n \<Longrightarrow> \<not> totalBandwidth s \<le> 0 \<Longrightarrow> holds_along P rnd i n s \<Longrightarrow>
   P i s \<and> holds_along P rnd (Suc i) n (loop_body_fp rnd i s)"
  by (subst (asm) holds_along.simps) simp

lemma alloc_loop_fp_step:
  "i < n \<Longrightarrow> \<not> totalBandwidth s \<le> 0 \<Longrightarrow>
   alloc_loop_fp rnd i n s = alloc_loop_fp rnd (Suc i) n (loop_body_fp rnd i s)"
  by (subst alloc_loop_fp.simps) simp

lemma alloc_loop_fp_stop:
  "\<not> (i < n \<and> \<not> totalBandwidth s \<le> 0) \<Longrightarrow> alloc_loop_fp rnd i n s = s"
  by (subst alloc_loop_fp.simps) auto


lemma alloc_loop_fp_list:
  "n = length (tasks s) \<Longrightarrow> i \<le> n \<Longrightarrow> holds_along (exact_subtraction rnd) rnd i n s \<Longrightarrow>
   tasks (alloc_loop_fp rnd i n s) =
     take i (tasks s) @ list_tasks (drop i (tasks s)) (totalBandwidth s) \<and>
   totalBandwidth (alloc_loop_fp rnd i n s) = list_rest (drop i (tasks s)) (totalBandwidth s)"
proof (induction rnd i n s rule: alloc_loop_fp.induct)
  case (1 rnd i n s)
  show ?case
  proof (cases "i < n \<and> \<not> totalBandwidth s \<le> 0")
    case False
    show ?thesis
    proof (cases "i < n")
      case True
      with False have "totalBandwidth s \<le> 0" by simp
      then show ?thesis
        using False by (simp add: alloc_loop_fp_stop list_tasks_exhausted list_rest_exhausted)
    next
      case ge: False
      with "1.prems" show ?thesis by (simp add: alloc_loop_fp_stop)
    qed
  next
    case True
    then have lt: "i < n" and pos: "\<not> totalBandwidth s \<le> 0" by simp_all
    let ?s' = "loop_body_fp rnd i s"
    let ?t = "tasks s ! i"
    have st: "exact_subtraction rnd i s"
      and rest: "holds_along (exact_subtraction rnd) rnd (Suc i) n ?s'"
      using holds_along_step[OF lt pos "1.prems"(3)] by simp_all
    have ts': "tasks ?s' = (tasks s)[i := ?t\<lparr>allocated :=
                 (if demand ?t \<le> totalBandwidth s then demand ?t else totalBandwidth s)\<rparr>]"
      by (simp add: loop_body_fp_def Let_def)
    have tb': "totalBandwidth ?s' =
                 (if demand ?t \<le> totalBandwidth s then totalBandwidth s - demand ?t else 0)"
      using st by (simp add: loop_body_fp_def exact_subtraction_def Let_def)
    have len: "length (tasks ?s') = length (tasks s)"
      by (simp add: ts')
    have dr: "drop i (tasks s) = ?t # drop (Suc i) (tasks s)"
      using lt "1.prems"(1) by (simp add: Cons_nth_drop_Suc)
    have IH: "tasks (alloc_loop_fp rnd (Suc i) n ?s') =
         take (Suc i) (tasks ?s') @ list_tasks (drop (Suc i) (tasks ?s')) (totalBandwidth ?s') \<and>
       totalBandwidth (alloc_loop_fp rnd (Suc i) n ?s') =
         list_rest (drop (Suc i) (tasks ?s')) (totalBandwidth ?s')"
      using "1.IH"[OF lt pos _ _ rest] lt "1.prems"(1) len by simp
    show ?thesis
      unfolding alloc_loop_fp_step[OF lt pos] dr
      using IH lt pos "1.prems"(1) unfolding ts' tb'
      by (simp add: take_Suc_conv_app_nth list_tasks_exhausted list_rest_exhausted)
  qed
qed


lemma read_tasks_fp_fresh:
  "t \<in> set (read_tasks_fp rnd numTasks inputs) \<Longrightarrow> allocated t = 0"
  by (auto simp add: read_tasks_fp_def read_task_fp_def split: prod.splits)

lemma read_tasks_fp_demand:
  "\<forall>x \<in> set (take (nat numTasks) inputs). 0 \<le> fst (snd x) \<Longrightarrow>
   t \<in> set (read_tasks_fp rnd numTasks inputs) \<Longrightarrow> 0 \<le> demand t"
  by (auto simp add: read_tasks_fp_def read_task_fp_def split: prod.splits)

lemma read_tasks_fp_demands:
  "map demand (read_tasks_fp rnd numTasks inputs) =
   map (\<lambda>x. fst (snd x)) (take (nat numTasks) inputs)"
  by (simp add: read_tasks_fp_def read_task_fp_def split: prod.splits)

lemma length_read_tasks_fp:
  "nat numTasks \<le> length inputs \<Longrightarrow> length (read_tasks_fp rnd numTasks inputs) = nat numTasks"
  by (simp add: read_tasks_fp_def)

lemma sum_demands_sorted:
  assumes "qsort_post xs ys"
  shows "sum_list (map demand ys) = sum_list (map demand xs)"
proof -
  have "mset (map demand ys) = mset (map demand xs)"
    using assms by (simp add: qsort_post_def)
  then show ?thesis by (metis sum_mset_sum_list)
qed

lemma main_fp_early:
  "numTasks \<le> 0 \<Longrightarrow> tasks (main_fp rnd qs malloc_ok bandwidth numTasks inputs) = []"
  by (simp add: main_fp_def)

lemma main_fp_no_bandwidth:
  "bandwidth \<le> 0 \<Longrightarrow>
   totalPriorityValue (main_fp rnd qs malloc_ok bandwidth numTasks inputs) = 0"
  by (simp add: main_fp_def Let_def alloc_loop_fp_stop)

lemma main_fp_loop:
  "0 < numTasks \<Longrightarrow> malloc_ok \<Longrightarrow>
   main_fp rnd qs malloc_ok bandwidth numTasks inputs =
     (alloc_loop_fp rnd 0 (nat numTasks) (sorted_state_fp rnd qs bandwidth numTasks inputs))
       \<lparr>exit_status := 0\<rparr>"
  by (simp add: main_fp_def sorted_state_fp_def Let_def)


lemma main_fp_id: "main_fp (\<lambda>x. x) = main_prog"
proof -
  have b: "loop_body_fp (\<lambda>x. x) = loop_body"
    by (intro ext) (simp add: loop_body_fp_def loop_body_def Let_def)
  have l: "alloc_loop_fp (\<lambda>x. x) i n s = alloc_loop i n s" for i n s
  proof (induction i n s rule: alloc_loop.induct)
    case (1 i n s)
    show ?case
    proof (cases "i < n \<and> \<not> totalBandwidth s \<le> 0")
      case True
      then show ?thesis
        using 1 by (subst alloc_loop_fp.simps, subst alloc_loop.simps) (simp add: b)
    next
      case False
      then show ?thesis
        by (subst alloc_loop_fp.simps, subst alloc_loop.simps) auto
    qed
  qed
  have r: "read_tasks_fp (\<lambda>x. x) = read_tasks"
    by (intro ext) (simp add: read_tasks_fp_def read_tasks_def read_task_fp_def read_task_def
        computeRatio_fp_def computeRatio_def)
  show ?thesis
    by (intro ext) (simp add: main_fp_def main_prog_def Let_def l r)
qed

section \<open>Binary64 rounding at the values of the sample runs\<close>

lemma round_double_at:
  assumes "power_int 2 e \<le> \<bar>x\<bar>" and "\<bar>x\<bar> < power_int 2 (e + 1)" and "- 1022 \<le> e"
  shows "round_double x = power_int 2 (e - 52) * of_int (round_half_even (x / power_int 2 (e - 52)))"
proof -
  have pos: "0 < \<bar>x\<bar>"
    using assms(1) by (smt (verit) zero_less_power_int)
  have a: "(2::real) powr real_of_int e = power_int 2 e"
    by (simp add: powr_real_of_int')
  have "(2::real) powr real_of_int (e + 1) = power_int 2 (e + 1)"
    by (rule powr_real_of_int') simp_all
  note b = this
  have "\<lfloor>log 2 \<bar>x\<bar>\<rfloor> = e"
  proof -
    have "\<lfloor>log 2 \<bar>x\<bar>\<rfloor> = e \<longleftrightarrow>
          2 powr real_of_int e \<le> \<bar>x\<bar> \<and> \<bar>x\<bar> < 2 powr real_of_int (e + 1)"
      by (rule floor_log_eq_powr_iff[OF pos]) simp
    then show ?thesis using assms(1,2) unfolding a b by simp
  qed
  with pos assms(3) show ?thesis
    by (simp add: round_double_def Let_def)
qed

lemma round_double_0: "round_double 0 = 0"
  by (simp add: round_double_def)

lemma round_double_tie: "round_double 9999999999999999 = 10000000000000000"
  by (subst round_double_at[where e = 53]) (simp_all add: round_half_even_def)

lemma round_double_small:
  "round_double 1 = 1" "round_double 2 = 2" "round_double 5 = 5" "round_double 10 = 10"
  "round_double 20 = 20" "round_double 50 = 50" "round_double 100 = 100"
  "round_double 105 = 105" "round_double 155 = 155" "round_double (1 / 2) = 1 / 2"
  by (subst round_double_at[where e = 0], simp_all add: round_half_even_def)
     (subst round_double_at[where e = 1], simp_all add: round_half_even_def,
      subst round_double_at[where e = 2], simp_all add: round_half_even_def,
      subst round_double_at[where e = 3], simp_all add: round_half_even_def,
      subst round_double_at[where e = 4], simp_all add: round_half_even_def,
      subst round_double_at[where e = 5], simp_all add: round_half_even_def,
      subst round_double_at[where e = 6], simp_all add: round_half_even_def,
      subst round_double_at[where e = 6], simp_all add: round_half_even_def,
      subst round_double_at[where e = 7], simp_all add: round_half_even_def,
      subst round_double_at[where e = "- 1"], simp_all add: round_half_even_def)

lemma rounding_rank:
  "stable_rank (read_tasks_fp round_double 3 rounding_inputs) =
    [\<lparr>name = ''S1'', demand = 1, priority = 10, ratio = 10, allocated = 0\<rparr>,
     \<lparr>name = ''S2'', demand = 1, priority = 10, ratio = 10, allocated = 0\<rparr>,
     \<lparr>name = ''BIG'', demand = 10000000000000000, priority = 0, ratio = 0, allocated = 0\<rparr>]"
  by (simp add: read_tasks_fp_def rounding_inputs_def read_task_fp_def computeRatio_fp_def
      stable_rank_def round_double_0 round_double_small)

lemma dyadic_rank:
  "stable_rank (read_tasks_fp round_double 3 dyadic_inputs) =
    [\<lparr>name = ''Z'', demand = 0, priority = 5, ratio = 1000000000, allocated = 0\<rparr>,
     \<lparr>name = ''B'', demand = 50, priority = 100, ratio = 2, allocated = 0\<rparr>,
     \<lparr>name = ''A'', demand = 100, priority = 100, ratio = 1, allocated = 0\<rparr>]"
  by (simp add: read_tasks_fp_def dyadic_inputs_def read_task_fp_def computeRatio_fp_def
      stable_rank_def round_double_small)


lemma dyadic_exact_pool: "exact_pool round_double stable_rank 100 3 dyadic_inputs"
  unfolding exact_pool_def sorted_state_fp_def dyadic_rank
  by (simp add: round_double_small holds_along.simps exact_subtraction_def loop_body_fp_def Let_def)

lemma dyadic_main:
  "main_fp round_double stable_rank True 100 3 dyadic_inputs =
    \<lparr>tasks = [\<lparr>name = ''Z'', demand = 0, priority = 5, ratio = 1000000000, allocated = 0\<rparr>,
     \<lparr>name = ''B'', demand = 50, priority = 100, ratio = 2, allocated = 50\<rparr>,
     \<lparr>name = ''A'', demand = 100, priority = 100, ratio = 1, allocated = 50\<rparr>],
     totalBandwidth = 0, initialBandwidth = 100, totalPriorityValue = 155, exit_status = 0\<rparr>"
  by (simp add: main_fp_def Let_def dyadic_rank alloc_loop_fp.simps loop_body_fp_def
      round_double_small)

section \<open>Conservation\<close>

text \<open>
  C3 (as amended). Take a run of main that gets its array, reads non-negative demands
  and has a capacity \<open>\<ge> 0\<close>, under any rounding. If no subtraction from the pool rounds
  in this run, the allocated amounts sum to at most the capacity, and to exactly the
  capacity if and only if the demands read sum to at least the capacity.
\<close>

theorem conservation_without_rounding:
  assumes ok: "malloc_ok" and cap: "0 \<le> bandwidth"
    and dem: "\<forall>x \<in> set (take (nat numTasks) inputs). 0 \<le> fst (snd x)"
    and len: "nat numTasks \<le> length inputs"
    and srt: "qsort_post (read_tasks_fp rnd numTasks inputs) (qs (read_tasks_fp rnd numTasks inputs))"
    and pool: "exact_pool rnd qs bandwidth numTasks inputs"
  shows "sum_list (map allocated (tasks (main_fp rnd qs malloc_ok bandwidth numTasks inputs)))
           \<le> bandwidth \<and>
         (sum_list (map allocated (tasks (main_fp rnd qs malloc_ok bandwidth numTasks inputs)))
            = bandwidth \<longleftrightarrow>
          bandwidth \<le> sum_list (map (\<lambda>x. fst (snd x)) (take (nat numTasks) inputs)))"
proof (cases "0 < numTasks")
  case True
  let ?xs = "read_tasks_fp rnd numTasks inputs"
  let ?ys = "qs ?xs"
  let ?s = "sorted_state_fp rnd qs bandwidth numTasks inputs"
  have l: "length ?ys = nat numTasks"
    using qsort_post_length[OF srt] length_read_tasks_fp[OF len] by simp
  have st: "set ?ys = set ?xs"
    by (rule qsort_post_set[OF srt])
  have fresh: "\<forall>t \<in> set ?ys. allocated t = 0 \<and> 0 \<le> demand t"
    using read_tasks_fp_fresh read_tasks_fp_demand[OF dem] st by blast
  have ts: "tasks ?s = ?ys" and tb: "totalBandwidth ?s = bandwidth"
    by (simp_all add: sorted_state_fp_def)
  have h: "holds_along (exact_subtraction rnd) rnd 0 (nat numTasks) ?s"
    using pool by (simp add: exact_pool_def)
  have "tasks (alloc_loop_fp rnd 0 (nat numTasks) ?s) = list_tasks ?ys bandwidth"
    using alloc_loop_fp_list[of "nat numTasks" ?s 0 rnd] h l unfolding ts tb by simp
  then have t: "tasks (main_fp rnd qs malloc_ok bandwidth numTasks inputs) = list_tasks ?ys bandwidth"
    using True ok by (simp add: main_fp_loop)
  have "sum_list (map allocated (list_tasks ?ys bandwidth)) =
        min bandwidth (sum_list (map (\<lambda>x. fst (snd x)) (take (nat numTasks) inputs)))"
    unfolding list_tasks_sum[OF fresh cap] sum_demands_sorted[OF srt] read_tasks_fp_demands ..
  then show ?thesis unfolding t by auto
next
  case False
  then show ?thesis using cap by (simp add: main_fp_early)
qed

theorem conservation_without_rounding_witness:
  "sum_list (map allocated (tasks (main_fp round_double stable_rank True 100 3 dyadic_inputs)))
           \<le> 100 \<and>
   (sum_list (map allocated (tasks (main_fp round_double stable_rank True 100 3 dyadic_inputs)))
            = 100 \<longleftrightarrow>
    100 \<le> sum_list (map (\<lambda>x. fst (snd x)) (take (nat 3) dyadic_inputs)))"
proof -
  have h1: "True" and h2: "(0::real) \<le> 100" by simp_all
  have h3: "\<forall>x \<in> set (take (nat 3) dyadic_inputs). 0 \<le> fst (snd x)"
    by (simp add: dyadic_inputs_def)
  have h4: "nat 3 \<le> length dyadic_inputs"
    by (simp add: dyadic_inputs_def)
  have h5: "qsort_post (read_tasks_fp round_double 3 dyadic_inputs)
              (stable_rank (read_tasks_fp round_double 3 dyadic_inputs))"
    by (rule qsort_post_stable_rank)
  show ?thesis
    by (rule conservation_without_rounding[where qs = stable_rank and malloc_ok = True,
          OF h1 h2 h3 h4 h5 dyadic_exact_pool])
qed

text \<open>
  Without the condition on the pool the sentence fails: with capacity \<open>1e16\<close>, two tasks
  of demand 1 and one of demand \<open>1e16\<close>, binary64 rounds \<open>1e16 - 1\<close> back to \<open>1e16\<close>, the
  pool is still full when the large task is reached, and the program hands out
  \<open>1e16 + 2\<close>.
\<close>

theorem conservation_counterexample:
  "map allocated (tasks (main_fp round_double stable_rank True 10000000000000000 3 rounding_inputs)) =
     [1, 1, 10000000000000000] \<and>
   sum_list (map allocated
     (tasks (main_fp round_double stable_rank True 10000000000000000 3 rounding_inputs))) =
     10000000000000002"
  by (simp add: main_fp_def Let_def rounding_rank alloc_loop_fp.simps loop_body_fp_def
      round_double_0 round_double_small round_double_tie)

section \<open>Optimality\<close>










end
